theory Spec2Isabelle
  imports Main
begin

section \<open>Python values used by convert\_uppercase.py\<close>

text \<open>
  A Python \<open>str\<close> is a sequence of Unicode code points. A code point is a natural
  number; ASCII literals are written through \<open>str\<close>, so \<open>str ''a b''\<close> is
  \<open>[97, 32, 98]\<close>. Line feed is 10, carriage return 13, space 32.
\<close>

type_synonym codepoint = nat
type_synonym pystr = "codepoint list"

abbreviation str :: "string \<Rightarrow> pystr" where
  "str s \<equiv> map of_char s"

text \<open>
  The two ways the script can stop early: \<open>open\<close> on a missing file, and an index
  out of range. \<open>IndexError\<close> carries the message of the interpreter, which tells a
  string index from a list index.
\<close>

datatype py_error = FileNotFoundError | IndexError string

definition str_getitem :: "pystr \<Rightarrow> nat \<Rightarrow> py_error + codepoint" where
  "str_getitem s i =
     (if i < length s then Inr (s ! i) else Inl (IndexError ''string index out of range''))"

definition getitem :: "'a list \<Rightarrow> nat \<Rightarrow> py_error + 'a" where
  "getitem xs i =
     (if i < length xs then Inr (xs ! i) else Inl (IndexError ''list index out of range''))"

definition setitem :: "'a list \<Rightarrow> nat \<Rightarrow> 'a \<Rightarrow> py_error + 'a list" where
  "setitem xs i v =
     (if i < length xs then Inr (xs[i := v])
      else Inl (IndexError ''list assignment index out of range''))"

section \<open>The character database\<close>

text \<open>
  \<open>str.islower\<close>, \<open>str.split\<close> and \<open>str.capitalize\<close> read the interpreter's
  Unicode character database, which is not part of the repository and grows with every
  Unicode version. Its rows for the ASCII code points are fixed and are written out
  below; the rows of all other code points are a parameter \<open>db\<close> of every function
  that reads them.
\<close>

record ucd =
  is_lowercase :: "codepoint \<Rightarrow> bool"
  is_whitespace :: "codepoint \<Rightarrow> bool"
  is_cased :: "codepoint \<Rightarrow> bool"
  is_case_ignorable :: "codepoint \<Rightarrow> bool"
  to_title_full :: "codepoint \<Rightarrow> codepoint list"
  to_lower_full :: "codepoint \<Rightarrow> codepoint list"
  to_upper_full :: "codepoint \<Rightarrow> codepoint list"

text \<open>\<open>s.islower()\<close> for a string \<open>s\<close> of length one, whose only code point is \<open>c\<close>.\<close>

definition islower :: "ucd \<Rightarrow> codepoint \<Rightarrow> bool" where
  "islower db c = (if c < 128 then 97 \<le> c \<and> c \<le> 122 else is_lowercase db c)"

text \<open>
  Whitespace as \<open>str.split()\<close> sees it. In ASCII: tab, line feed, vertical tab, form
  feed, carriage return, the four separators 28 to 31, and space.
\<close>

definition isspace :: "ucd \<Rightarrow> codepoint \<Rightarrow> bool" where
  "isspace db c =
     (if c < 128 then (9 \<le> c \<and> c \<le> 13) \<or> (28 \<le> c \<and> c \<le> 32) else is_whitespace db c)"

definition totitle :: "ucd \<Rightarrow> codepoint \<Rightarrow> pystr" where
  "totitle db c =
     (if c < 128 then [if 97 \<le> c \<and> c \<le> 122 then c - 32 else c] else to_title_full db c)"

definition tolower :: "ucd \<Rightarrow> codepoint \<Rightarrow> pystr" where
  "tolower db c =
     (if c < 128 then [if 65 \<le> c \<and> c \<le> 90 then c + 32 else c] else to_lower_full db c)"

text \<open>
  The uppercase mapping, \<open>str.upper\<close> on one code point. The script never calls it;
  it is here for the wording of the specification, which speaks of uppercasing.
\<close>

definition toupper :: "ucd \<Rightarrow> codepoint \<Rightarrow> pystr" where
  "toupper db c =
     (if c < 128 then [if 97 \<le> c \<and> c \<le> 122 then c - 32 else c] else to_upper_full db c)"

definition cased :: "ucd \<Rightarrow> codepoint \<Rightarrow> bool" where
  "cased db c =
     (if c < 128 then (65 \<le> c \<and> c \<le> 90) \<or> (97 \<le> c \<and> c \<le> 122) else is_cased db c)"

definition case_ignorable :: "ucd \<Rightarrow> codepoint \<Rightarrow> bool" where
  "case_ignorable db c =
     (if c < 128 then c = 39 \<or> c = 46 \<or> c = 58 \<or> c = 94 \<or> c = 96
      else is_case_ignorable db c)"

section \<open>String methods\<close>

text \<open>
  Lowercasing inside \<open>capitalize\<close> is per code point, except for the capital sigma
  (U+03A3, 931): it becomes the final sigma (962) when a cased code point stands before
  it and none after it, case-ignorable code points skipped on both sides, and the small
  sigma (963) otherwise.
\<close>

definition final_sigma :: "ucd \<Rightarrow> pystr \<Rightarrow> nat \<Rightarrow> bool" where
  "final_sigma db s i =
     (case dropWhile (case_ignorable db) (rev (take i s)) of
        [] \<Rightarrow> False
      | b # _ \<Rightarrow>
          cased db b \<and>
          (case dropWhile (case_ignorable db) (drop (Suc i) s) of
             [] \<Rightarrow> True
           | a # _ \<Rightarrow> \<not> cased db a))"

definition lower_at :: "ucd \<Rightarrow> pystr \<Rightarrow> nat \<Rightarrow> pystr" where
  "lower_at db s i =
     (if s ! i = 931 then [if final_sigma db s i then 962 else 963] else tolower db (s ! i))"

text \<open>
  \<open>s.capitalize()\<close>: the title-case mapping of the first code point, then every
  other code point lowercased. The empty string stays empty.
\<close>

definition capitalize :: "ucd \<Rightarrow> pystr \<Rightarrow> pystr" where
  "capitalize db s =
     (case s of
        [] \<Rightarrow> []
      | c # _ \<Rightarrow> totitle db c @ concat (map (lower_at db s) [1..<length s]))"

text \<open>
  \<open>s.split()\<close> with no argument: the maximal runs of non-whitespace code points, in
  order. \<open>split_from db w s\<close> scans \<open>s\<close> with the word \<open>w\<close> read so far.
\<close>

fun split_from :: "ucd \<Rightarrow> pystr \<Rightarrow> pystr \<Rightarrow> pystr list" where
  "split_from db w [] = (if w = [] then [] else [w])"
| "split_from db w (c # cs) =
     (if isspace db c then (if w = [] then split_from db [] cs else w # split_from db [] cs)
      else split_from db (w @ [c]) cs)"

definition split :: "ucd \<Rightarrow> pystr \<Rightarrow> pystr list" where
  "split db s = split_from db [] s"

text \<open>\<open>sep.join(words)\<close>.\<close>

fun join :: "pystr \<Rightarrow> pystr list \<Rightarrow> pystr" where
  "join sep [] = []"
| "join sep [w] = w"
| "join sep (w # v # ws) = w @ sep @ join sep (v # ws)"

section \<open>The file\<close>

text \<open>
  The state of a run is the text of \<open>target.yaml\<close>, \<open>None\<close> when the file does not
  exist. Decoding, permissions and the platform's line separator on writing (taken as
  line feed) are outside the model.

  A file opened with mode \<open>'r'\<close> is read with universal newlines: \<open>\r\n\<close> and a lone
  \<open>\r\<close> arrive as \<open>\n\<close>.
\<close>

type_synonym target = "pystr option"

fun universal_newlines :: "pystr \<Rightarrow> pystr" where
  "universal_newlines [] = []"
| "universal_newlines [c] = [if c = 13 then 10 else c]"
| "universal_newlines (c # d # cs) =
     (if c = 13 then
        (if d = 10 then 10 # universal_newlines cs else 10 # universal_newlines (d # cs))
      else c # universal_newlines (d # cs))"

text \<open>
  \<open>f.readlines()\<close>: the text cut after every line feed; each line keeps its line
  feed, and the last line is the only one that may lack it.
\<close>

fun readlines :: "pystr \<Rightarrow> pystr list" where
  "readlines [] = []"
| "readlines (c # cs) =
     (if c = 10 then [c] # readlines cs
      else (case readlines cs of [] \<Rightarrow> [[c]] | l # ls \<Rightarrow> (c # l) # ls))"

text \<open>\<open>f.writelines(output)\<close> appends every element to the text of the open file.\<close>

definition writelines :: "pystr list \<Rightarrow> pystr \<Rightarrow> pystr" where
  "writelines ls text = text @ concat ls"

section \<open>The script\<close>

text \<open>
  One iteration of the loop, lines 11 to 20 of the script, for the line \<open>lines[i]\<close>
  and the list \<open>output\<close> built so far.
\<close>

definition body :: "ucd \<Rightarrow> pystr \<Rightarrow> pystr list \<Rightarrow> py_error + pystr list" where
  "body db line output =
     (case str_getitem line 0 of
        Inl e \<Rightarrow> Inl e
      | Inr c \<Rightarrow>
          if islower db c then
            (let words = split db line in
             case getitem words 0 of
               Inl e \<Rightarrow> Inl e
             | Inr w0 \<Rightarrow>
                 (case setitem words 0 (capitalize db w0) of
                    Inl e \<Rightarrow> Inl e
                  | Inr words \<Rightarrow>
                      (case getitem words 1 of
                         Inl e \<Rightarrow> Inl e
                       | Inr w1 \<Rightarrow>
                           (case setitem words 1 (capitalize db w1) of
                              Inl e \<Rightarrow> Inl e
                            | Inr words \<Rightarrow>
                                (let converted = join (str '' '') words;
                                     converted = converted @ str ''\<newline>''
                                 in Inr (output @ [converted]))))))
          else Inr output)"

text \<open>
  \<open>for i in range(len(lines))\<close> visits \<open>lines[0]\<close>, \<open>lines[1]\<close>, ... in order, every
  index in range; the first error ends the run.
\<close>

fun loop :: "ucd \<Rightarrow> pystr list \<Rightarrow> pystr list \<Rightarrow> py_error + pystr list" where
  "loop db [] output = Inr output"
| "loop db (line # rest) output =
     (case body db line output of
        Inl e \<Rightarrow> Inl e
      | Inr output' \<Rightarrow> loop db rest output')"

text \<open>
  The whole script: read the file in full, run the loop, and only then open the file
  for writing, which empties it, and write the lines of \<open>output\<close>. The result is the
  outcome of the run and the file after it.
\<close>

definition main :: "ucd \<Rightarrow> target \<Rightarrow> (py_error + unit) \<times> target" where
  "main db f =
     (case f of
        None \<Rightarrow> (Inl FileNotFoundError, f)
      | Some text \<Rightarrow>
          (let output = [];
               lines = readlines (universal_newlines text)
           in case loop db lines output of
                Inl e \<Rightarrow> (Inl e, f)
              | Inr output \<Rightarrow> (Inr (), Some (writelines output []))))"

text \<open>
  The test of line 11, \<open>lines[i][0].islower()\<close>, as a predicate on the line: false
  where the index is out of range.
\<close>

definition first_islower :: "ucd \<Rightarrow> pystr \<Rightarrow> bool" where
  "first_islower db line = (case str_getitem line 0 of Inl _ \<Rightarrow> False | Inr c \<Rightarrow> islower db c)"

section \<open>The output line in the words of the specification\<close>

text \<open>
  The specification describes the line written for a qualifying line as: the tokens of
  the line, the first and the second capitalized, all others as they are, joined by
  single spaces, and one line feed appended. \<open>spec_convert\<close> follows these words; the
  loop body above follows the script.
\<close>

definition spec_convert :: "ucd \<Rightarrow> pystr \<Rightarrow> pystr" where
  "spec_convert db line =
     (let words = split db line
      in join (str '' '')
           (capitalize db (words ! 0) # capitalize db (words ! 1) # drop 2 words)
         @ str ''\<newline>'')"

text \<open>
  The specification glosses capitalizing a token as: the first character uppercased,
  all subsequent characters lowercased. \<open>upper_then_lower\<close> follows these words, each
  character mapped on its own; \<open>capitalize\<close> above is what the script calls.
\<close>

definition upper_then_lower :: "ucd \<Rightarrow> pystr \<Rightarrow> pystr" where
  "upper_then_lower db w =
     (case w of [] \<Rightarrow> [] | c # cs \<Rightarrow> toupper db c @ concat (map (tolower db) cs))"

section \<open>A block of the character database\<close>

text \<open>
  The rows of the Latin-1 Supplement block (U+0080 to U+00FF) as Python 3 has them.
  Outside the block this database calls nothing lowercase, whitespace or cased and maps
  every code point to itself; it is used below only on inputs within ASCII and the
  block.
\<close>

definition latin1 :: ucd where
  "latin1 =
     \<lparr> is_lowercase = (\<lambda>c. c = 170 \<or> c = 181 \<or> c = 186 \<or> (223 \<le> c \<and> c \<le> 255 \<and> c \<noteq> 247)),
       is_whitespace = (\<lambda>c. c = 133 \<or> c = 160),
       is_cased = (\<lambda>c. c = 170 \<or> c = 181 \<or> c = 186 \<or>
                       (192 \<le> c \<and> c \<le> 255 \<and> c \<noteq> 215 \<and> c \<noteq> 247)),
       is_case_ignorable = (\<lambda>c. c = 168 \<or> c = 173 \<or> c = 175 \<or> c = 180 \<or> c = 183 \<or> c = 184),
       to_title_full = (\<lambda>c. if c = 181 then [924]
                             else if c = 223 then [83, 115]
                             else if c = 255 then [376]
                             else if 224 \<le> c \<and> c \<le> 254 \<and> c \<noteq> 247 then [c - 32]
                             else [c]),
       to_lower_full = (\<lambda>c. if 192 \<le> c \<and> c \<le> 222 \<and> c \<noteq> 215 then [c + 32] else [c]),
       to_upper_full = (\<lambda>c. if c = 181 then [924]
                             else if c = 223 then [83, 83]
                             else if c = 255 then [376]
                             else if 224 \<le> c \<and> c \<le> 254 \<and> c \<noteq> 247 then [c - 32]
                             else [c]) \<rparr>"

section \<open>Lines, the loop body and the loop\<close>

lemma readlines_nonempty: "[] \<notin> set (readlines t)"
  by (induction t) (auto split: list.splits)

lemma first_islower_Nil: "\<not> first_islower db []"
  by (simp add: first_islower_def str_getitem_def)

lemma first_islower_Cons: "first_islower db (c # cs) = islower db c"
  by (simp add: first_islower_def str_getitem_def)

lemma body_Nil: "body db [] out = Inl (IndexError ''string index out of range'')"
  by (simp add: body_def str_getitem_def)

lemma body_skip:
  assumes "line \<noteq> []" and "\<not> first_islower db line"
  shows "body db line out = Inr out"
  using assms by (cases line) (simp_all add: body_def str_getitem_def first_islower_def)

lemma body_convert:
  assumes "first_islower db line" and "2 \<le> length (split db line)"
  shows "body db line out = Inr (out @ [spec_convert db line])"
proof -
  obtain c cs where line: "line = c # cs" and low: "islower db c"
    using assms(1) by (cases line) (auto simp: first_islower_Nil first_islower_Cons)
  obtain w0 w1 rest where words: "split db line = w0 # w1 # rest"
    using assms(2) by (cases "split db line"; cases "tl (split db line)") auto
  show ?thesis
    using low words unfolding line
    by (simp add: body_def str_getitem_def getitem_def setitem_def spec_convert_def)
qed

lemma body_fail:
  assumes "first_islower db line" and "length (split db line) < 2"
  shows "body db line out = Inl (IndexError ''list index out of range'')"
proof -
  obtain c cs where line: "line = c # cs" and low: "islower db c"
    using assms(1) by (cases line) (auto simp: first_islower_Nil first_islower_Cons)
  consider "split db line = []" | w where "split db line = [w]"
    using assms(2) by (cases "split db line"; cases "tl (split db line)") auto
  then show ?thesis
    using low unfolding line
    by cases (simp_all add: body_def str_getitem_def getitem_def setitem_def)
qed

lemma loop_ok:
  assumes "[] \<notin> set ls"
    and "\<forall>l\<in>set ls. first_islower db l \<longrightarrow> 2 \<le> length (split db l)"
  shows "loop db ls out = Inr (out @ map (spec_convert db) (filter (first_islower db) ls))"
  using assms
proof (induction ls arbitrary: out)
  case Nil
  then show ?case by simp
next
  case (Cons l ls)
  show ?case
  proof (cases "first_islower db l")
    case True
    then have "body db l out = Inr (out @ [spec_convert db l])"
      using Cons.prems by (intro body_convert) auto
    then show ?thesis using True Cons by simp
  next
    case False
    then have "body db l out = Inr out"
      using Cons.prems by (intro body_skip) auto
    then show ?thesis using False Cons by simp
  qed
qed

lemma loop_fail:
  assumes "[] \<notin> set ls"
    and "\<exists>l\<in>set ls. first_islower db l \<and> length (split db l) < 2"
  shows "loop db ls out = Inl (IndexError ''list index out of range'')"
  using assms
proof (induction ls arbitrary: out)
  case Nil
  then show ?case by simp
next
  case (Cons l ls)
  show ?case
  proof (cases "first_islower db l")
    case low: True
    show ?thesis
    proof (cases "length (split db l) < 2")
      case True
      then show ?thesis using low by (simp add: body_fail)
    next
      case False
      then have "body db l out = Inr (out @ [spec_convert db l])"
        using low by (intro body_convert) auto
      moreover have "\<exists>l\<in>set ls. first_islower db l \<and> length (split db l) < 2"
        using Cons.prems(2) False by auto
      ultimately show ?thesis using Cons by simp
    qed
  next
    case False
    then have "body db l out = Inr out"
      using Cons.prems by (intro body_skip) auto
    moreover have "\<exists>l\<in>set ls. first_islower db l \<and> length (split db l) < 2"
      using Cons.prems(2) False by auto
    ultimately show ?thesis using Cons by simp
  qed
qed

lemma loop_cases:
  assumes "[] \<notin> set ls"
  shows "(if \<exists>l\<in>set ls. first_islower db l \<and> length (split db l) < 2
          then loop db ls out = Inl (IndexError ''list index out of range'')
          else loop db ls out =
                 Inr (out @ map (spec_convert db) (filter (first_islower db) ls)))"
proof (cases "\<exists>l\<in>set ls. first_islower db l \<and> length (split db l) < 2")
  case True
  then show ?thesis using loop_fail [OF assms] by simp
next
  case False
  then have "\<forall>l\<in>set ls. first_islower db l \<longrightarrow> 2 \<le> length (split db l)"
    by (auto simp: not_less)
  then show ?thesis using False loop_ok [OF assms] by simp
qed

lemma main_Some:
  "main db (Some text) =
     (case loop db (readlines (universal_newlines text)) [] of
        Inl e \<Rightarrow> (Inl e, Some text)
      | Inr out \<Rightarrow> (Inr (), Some (concat out)))"
  by (simp add: main_def writelines_def Let_def split: sum.splits)

lemma loop_append:
  "loop db (xs @ ys) out =
     (case loop db xs out of Inl e \<Rightarrow> Inl e | Inr out' \<Rightarrow> loop db ys out')"
  by (induction xs arbitrary: out) (auto split: sum.splits)

lemma lower_at_ascii:
  assumes "s ! i < 128"
  shows "lower_at db s i = [if 65 \<le> s ! i \<and> s ! i \<le> 90 then s ! i + 32 else s ! i]"
  using assms by (simp add: lower_at_def tolower_def)

lemma capitalize_ascii:
  assumes "\<forall>d\<in>set (c # cs). d < 128"
  shows "capitalize db (c # cs) =
           (if 97 \<le> c \<and> c \<le> 122 then c - 32 else c) #
           map (\<lambda>d. if 65 \<le> d \<and> d \<le> 90 then d + 32 else d) cs"
proof -
  let ?f = "\<lambda>d::nat. if 65 \<le> d \<and> d \<le> 90 then d + 32 else d"
  have "map (lower_at db (c # cs)) [1..<length (c # cs)] = map (\<lambda>d. [?f d]) cs"
  proof (rule nth_equalityI)
    show "length (map (lower_at db (c # cs)) [1..<length (c # cs)]) = length (map (\<lambda>d. [?f d]) cs)"
      by (simp del: upt_Suc)
  next
    fix i
    assume "i < length (map (lower_at db (c # cs)) [1..<length (c # cs)])"
    then have i: "i < length cs" by (simp del: upt_Suc)
    then have "cs ! i < 128" using assms by simp
    then have "lower_at db (c # cs) (Suc i) = [?f (cs ! i)]"
      using lower_at_ascii [of "c # cs" "Suc i" db] by simp
    then show "map (lower_at db (c # cs)) [1..<length (c # cs)] ! i = map (\<lambda>d. [?f d]) cs ! i"
      using i by (simp del: upt_Suc)
  qed
  moreover have "concat (map (\<lambda>d. [?f d]) cs) = map ?f cs"
    by (induction cs) simp_all
  moreover have "totitle db c = [if 97 \<le> c \<and> c \<le> 122 then c - 32 else c]"
    using assms by (simp add: totitle_def)
  ultimately show ?thesis
    by (simp add: capitalize_def del: upt_Suc)
qed

lemma capitalize_no_sigma:
  assumes "931 \<notin> set cs"
  shows "capitalize db (c # cs) = totitle db c @ concat (map (tolower db) cs)"
proof -
  have "map (lower_at db (c # cs)) [1..<length (c # cs)] = map (tolower db) cs"
  proof (rule nth_equalityI)
    show "length (map (lower_at db (c # cs)) [1..<length (c # cs)]) = length (map (tolower db) cs)"
      by (simp del: upt_Suc)
  next
    fix i
    assume "i < length (map (lower_at db (c # cs)) [1..<length (c # cs)])"
    then have i: "i < length cs" by (simp del: upt_Suc)
    then have "cs ! i \<in> set cs" by simp
    then have "cs ! i \<noteq> 931" using assms by metis
    then have "lower_at db (c # cs) (Suc i) = tolower db (cs ! i)"
      by (simp add: lower_at_def)
    then show "map (lower_at db (c # cs)) [1..<length (c # cs)] ! i = map (tolower db) cs ! i"
      using i by (simp del: upt_Suc)
  qed
  then show ?thesis
    by (simp add: capitalize_def del: upt_Suc)
qed

lemma loop_Inr:
  assumes "[] \<notin> set ls" and "loop db ls out = Inr res"
  shows "res = out @ map (spec_convert db) (filter (first_islower db) ls)"
  using loop_cases [OF assms(1), of db out] assms(2) by (simp split: if_splits)

section \<open>Tokens\<close>

lemma split_from_word:
  assumes "w \<noteq> []"
  shows "\<exists>u rest. split_from db w s = (w @ u) # rest"
  using assms
proof (induction s arbitrary: w)
  case Nil
  then show ?case by simp
next
  case (Cons c cs)
  show ?case
  proof (cases "isspace db c")
    case True
    then have "split_from db w (c # cs) = (w @ []) # split_from db [] cs"
      using Cons.prems by simp
    then show ?thesis by blast
  next
    case False
    obtain u rest where "split_from db (w @ [c]) cs = ((w @ [c]) @ u) # rest"
      using Cons.IH [of "w @ [c]"] by auto
    then have "split_from db w (c # cs) = (w @ (c # u)) # rest"
      using False by simp
    then show ?thesis by blast
  qed
qed

lemma split_Cons:
  assumes "\<not> isspace db c"
  shows "\<exists>u rest. split db (c # cs) = (c # u) # rest"
  using split_from_word [of "[c]" db cs] assms by (simp add: split_def)

lemma split_from_tokens:
  assumes "\<forall>c\<in>set w. \<not> isspace db c"
  shows "\<forall>t\<in>set (split_from db w s). \<forall>c\<in>set t. \<not> isspace db c"
  using assms
proof (induction s arbitrary: w)
  case Nil
  then show ?case by simp
next
  case (Cons c cs)
  have empty: "\<forall>t\<in>set (split_from db [] cs). \<forall>c\<in>set t. \<not> isspace db c"
    using Cons.IH [of "[]"] by simp
  show ?case
  proof (cases "isspace db c")
    case True
    then show ?thesis using empty Cons.prems by simp
  next
    case False
    then have "\<forall>d\<in>set (w @ [c]). \<not> isspace db d"
      using Cons.prems by simp
    then have "\<forall>t\<in>set (split_from db (w @ [c]) cs). \<forall>c\<in>set t. \<not> isspace db c"
      by (rule Cons.IH)
    then show ?thesis using False by simp
  qed
qed

lemma split_tokens:
  assumes "t \<in> set (split db s)" and "c \<in> set t"
  shows "\<not> isspace db c"
  using split_from_tokens [of "[]" db s] assms by (simp add: split_def)

lemma islower_not_isspace:
  assumes "\<forall>c. is_lowercase db c \<longrightarrow> \<not> is_whitespace db c" and "islower db c"
  shows "\<not> isspace db c"
  using assms by (auto simp: islower_def isspace_def split: if_splits)

lemma first_islower_split:
  assumes "\<forall>c. is_lowercase db c \<longrightarrow> \<not> is_whitespace db c" and "first_islower db line"
  shows "\<exists>u rest. split db line = (hd line # u) # rest"
proof -
  obtain c cs where line: "line = c # cs" and low: "islower db c"
    using assms(2) by (cases line) (auto simp: first_islower_Nil first_islower_Cons)
  have "\<not> isspace db c"
    using assms(1) low by (rule islower_not_isspace)
  then show ?thesis
    unfolding line using split_Cons by simp
qed

section \<open>Reading back what a run wrote\<close>

lemma universal_newlines_id:
  assumes "13 \<notin> set t"
  shows "universal_newlines t = t"
  using assms by (induction t rule: universal_newlines.induct) auto

lemma readlines_line:
  assumes "10 \<notin> set b"
  shows "readlines (b @ 10 # rest) = (b @ [10]) # readlines rest"
  using assms by (induction b) auto

lemma readlines_concat:
  assumes "\<forall>l\<in>set ls. \<exists>b. l = b @ [10] \<and> 10 \<notin> set b"
  shows "readlines (concat ls) = ls"
  using assms
proof (induction ls)
  case Nil
  then show ?case by simp
next
  case (Cons l ls)
  then obtain b where l: "l = b @ [10]" and b: "10 \<notin> set b"
    by auto
  have "readlines (concat (l # ls)) = readlines (b @ 10 # concat ls)"
    using l by simp
  also have "\<dots> = (b @ [10]) # readlines (concat ls)"
    using b by (rule readlines_line)
  finally show ?case
    using l Cons by simp
qed

lemma totitle_no_break:
  assumes "\<forall>c\<ge>128. 10 \<notin> set (to_title_full db c) \<and> 13 \<notin> set (to_title_full db c)"
    and "c \<noteq> 10" and "c \<noteq> 13"
  shows "10 \<notin> set (totitle db c) \<and> 13 \<notin> set (totitle db c)"
  using assms by (auto simp: totitle_def)

lemma lower_at_no_break:
  assumes "\<forall>c\<ge>128. 10 \<notin> set (to_lower_full db c) \<and> 13 \<notin> set (to_lower_full db c)"
    and "s ! i \<noteq> 10" and "s ! i \<noteq> 13"
  shows "10 \<notin> set (lower_at db s i) \<and> 13 \<notin> set (lower_at db s i)"
  using assms by (auto simp: lower_at_def tolower_def)

lemma capitalize_no_break:
  assumes title: "\<forall>c\<ge>128. 10 \<notin> set (to_title_full db c) \<and> 13 \<notin> set (to_title_full db c)"
    and lower: "\<forall>c\<ge>128. 10 \<notin> set (to_lower_full db c) \<and> 13 \<notin> set (to_lower_full db c)"
    and "10 \<notin> set s" and "13 \<notin> set s"
  shows "10 \<notin> set (capitalize db s) \<and> 13 \<notin> set (capitalize db s)"
proof (cases s)
  case Nil
  then show ?thesis by (simp add: capitalize_def)
next
  case (Cons c cs)
  have first: "10 \<notin> set (totitle db c) \<and> 13 \<notin> set (totitle db c)"
    using title assms(3,4) Cons by (intro totitle_no_break) auto
  have others: "10 \<notin> set (lower_at db s i) \<and> 13 \<notin> set (lower_at db s i)"
    if "i < length s" for i
  proof -
    have "s ! i \<in> set s" using that by simp
    then have "s ! i \<noteq> 10" and "s ! i \<noteq> 13"
      using assms(3,4) by auto
    with lower show ?thesis by (rule lower_at_no_break)
  qed
  have "set (capitalize db s) =
          set (totitle db c) \<union> (\<Union>i\<in>{1..<length s}. set (lower_at db s i))"
    using Cons by (simp add: capitalize_def del: upt_Suc)
  then show ?thesis
    using first others by auto
qed

lemma join_no_break:
  assumes "\<forall>w\<in>set ws. 10 \<notin> set w \<and> 13 \<notin> set w"
  shows "10 \<notin> set (join [32] ws) \<and> 13 \<notin> set (join [32] ws)"
  using assms by (induction "[32::nat]" ws rule: join.induct) auto

lemma token_no_break:
  assumes "t \<in> set (split db s)"
  shows "10 \<notin> set t \<and> 13 \<notin> set t"
proof -
  have "isspace db 10" and "isspace db 13"
    by (simp_all add: isspace_def)
  then show ?thesis
    using split_tokens [OF assms] by blast
qed

lemma capitalize_hd:
  assumes "totitle db c = t # ts"
  shows "\<exists>v. capitalize db (c # u) = t # v"
  using assms by (simp add: capitalize_def del: upt_Suc)

lemma totitle_lower_led:
  assumes "islower db c"
    and "128 \<le> c \<longrightarrow> (\<exists>t ts. to_title_full db c = t # ts \<and> \<not> islower db t)"
  shows "\<exists>t ts. totitle db c = t # ts \<and> \<not> islower db t"
proof (cases "c < 128")
  case True
  then have "97 \<le> c \<and> c \<le> 122"
    using assms(1) by (simp add: islower_def)
  then have "totitle db c = [c - 32] \<and> \<not> islower db (c - 32)"
    using True by (auto simp: totitle_def islower_def)
  then show ?thesis by blast
next
  case False
  then show ?thesis
    using assms(2) by (simp add: totitle_def)
qed

lemma spec_convert_shape:
  assumes space: "\<forall>c. is_lowercase db c \<longrightarrow> \<not> is_whitespace db c"
    and title: "\<forall>c\<ge>128. 10 \<notin> set (to_title_full db c) \<and> 13 \<notin> set (to_title_full db c)"
    and lower: "\<forall>c\<ge>128. 10 \<notin> set (to_lower_full db c) \<and> 13 \<notin> set (to_lower_full db c)"
    and low: "first_islower db line"
    and two: "2 \<le> length (split db line)"
    and up: "128 \<le> hd line \<longrightarrow> (\<exists>t ts. to_title_full db (hd line) = t # ts \<and> \<not> islower db t)"
  shows "\<exists>b. spec_convert db line = b @ [10] \<and> 10 \<notin> set b \<and> 13 \<notin> set b \<and>
             \<not> first_islower db (b @ [10])"
proof -
  obtain u rest where words: "split db line = (hd line # u) # rest"
    using first_islower_split [OF space low] by blast
  obtain w1 more where rest: "rest = w1 # more"
    using two words by (cases rest) auto
  let ?ws = "capitalize db (hd line # u) # capitalize db w1 # more"
  let ?b = "join [32] ?ws"
  have conv: "spec_convert db line = ?b @ [10]"
    using words rest by (simp add: spec_convert_def Let_def)
  have tok: "\<forall>t\<in>set (split db line). 10 \<notin> set t \<and> 13 \<notin> set t"
    using token_no_break by blast
  have "\<forall>w\<in>set ?ws. 10 \<notin> set w \<and> 13 \<notin> set w"
    using tok capitalize_no_break [OF title lower] unfolding words rest by simp
  then have clean: "10 \<notin> set ?b \<and> 13 \<notin> set ?b"
    by (rule join_no_break)
  have "islower db (hd line)"
    using low by (cases line) (auto simp: first_islower_Nil first_islower_Cons)
  then obtain t ts where t: "totitle db (hd line) = t # ts" and nt: "\<not> islower db t"
    using totitle_lower_led up by blast
  obtain v where "capitalize db (hd line # u) = t # v"
    using capitalize_hd [OF t] by blast
  then obtain v' where "?b = t # v'"
    by simp
  then have "?b @ [10] = t # (v' @ [10])"
    by simp
  then have "first_islower db (?b @ [10]) = islower db t"
    by (simp only: first_islower_Cons)
  then have "\<not> first_islower db (?b @ [10])"
    using nt by blast
  then show ?thesis
    using conv clean by blast
qed

lemma loop_none:
  assumes "[] \<notin> set ls" and "\<forall>l\<in>set ls. \<not> first_islower db l"
  shows "loop db ls out = Inr out"
  using assms
proof (induction ls)
  case Nil
  then show ?case by simp
next
  case (Cons l ls)
  then have "body db l out = Inr out"
    by (intro body_skip) auto
  then show ?case using Cons by simp
qed

section \<open>Claims\<close>

text \<open>
  Claim C1, as stated, glosses capitalizing as uppercasing the first character and
  lowercasing the others. \<open>str.capitalize\<close> maps the first character to title case:
  of the line made of the sharp s (223) and \<open>a b\<close> the script writes \<open>Ssa B\<close>, where
  uppercasing the first character gives \<open>SSa B\<close>.
\<close>

theorem capitalize_is_title_case:
  "first_islower latin1 ([223] @ str ''a b\<newline>'') \<and>
   split latin1 ([223] @ str ''a b\<newline>'') = [[223] @ str ''a'', str ''b''] \<and>
   body latin1 ([223] @ str ''a b\<newline>'') [] = Inr [str ''Ssa B\<newline>''] \<and>
   join (str '' '')
     [upper_then_lower latin1 ([223] @ str ''a''), upper_then_lower latin1 (str ''b'')]
     @ str ''\<newline>'' = str ''SSa B\<newline>'' \<and>
   str ''Ssa B\<newline>'' \<noteq> str ''SSa B\<newline>''"
  by code_simp

text \<open>
  Claim C1, amended. For a line whose first character is lowercase and which has at
  least two tokens, the loop body appends exactly one line: the tokens of the line with
  the first and the second passed through \<open>str.capitalize\<close> and all others as they
  are, joined by single spaces, with one line feed appended. \<open>str.capitalize\<close> of a
  token is the title-case mapping of its first character followed by the lowercase
  mapping of every other character, a capital sigma apart, which follows the
  final-sigma rule; on a token of ASCII characters it makes the first an uppercase
  letter if it is a lowercase one and every other a lowercase letter if it is an
  uppercase one.
\<close>

theorem converted_line:
  assumes "first_islower db line" and "2 \<le> length (split db line)"
  shows "body db line out =
           Inr (out @
             [join (str '' '')
                (capitalize db (split db line ! 0) # capitalize db (split db line ! 1) #
                 drop 2 (split db line))
              @ str ''\<newline>'']) \<and>
         (\<forall>c cs. 931 \<notin> set cs \<longrightarrow>
            capitalize db (c # cs) = totitle db c @ concat (map (tolower db) cs)) \<and>
         (\<forall>c cs. (\<forall>d\<in>set (c # cs). d < 128) \<longrightarrow>
            capitalize db (c # cs) =
              (if 97 \<le> c \<and> c \<le> 122 then c - 32 else c) #
              map (\<lambda>d. if 65 \<le> d \<and> d \<le> 90 then d + 32 else d) cs)"
proof -
  have "body db line out = Inr (out @ [spec_convert db line])"
    using assms by (rule body_convert)
  then have 1: "body db line out =
           Inr (out @
             [join (str '' '')
                (capitalize db (split db line ! 0) # capitalize db (split db line ! 1) #
                 drop 2 (split db line))
              @ str ''\<newline>''])"
    by (simp add: spec_convert_def Let_def)
  have 2: "\<forall>c cs. 931 \<notin> set cs \<longrightarrow>
            capitalize db (c # cs) = totitle db c @ concat (map (tolower db) cs)"
    using capitalize_no_sigma by blast
  have 3: "\<forall>c cs. (\<forall>d\<in>set (c # cs). d < 128) \<longrightarrow>
            capitalize db (c # cs) =
              (if 97 \<le> c \<and> c \<le> 122 then c - 32 else c) #
              map (\<lambda>d. if 65 \<le> d \<and> d \<le> 90 then d + 32 else d) cs"
    using capitalize_ascii by blast
  from 1 2 3 show ?thesis by blast
qed

theorem converted_line_witness:
  "first_islower latin1 ([223] @ str ''a b\<newline>'') \<and>
   2 \<le> length (split latin1 ([223] @ str ''a b\<newline>'')) \<and>
   body latin1 ([223] @ str ''a b\<newline>'') [str ''Elderberry Fig grape\<newline>''] =
     Inr [str ''Elderberry Fig grape\<newline>'', str ''Ssa B\<newline>''] \<and>
   capitalize latin1 ([223] @ str ''a'') = totitle latin1 223 @ concat (map (tolower latin1) (str ''a''))"
proof -
  let ?l = "[223] @ str ''a b\<newline>''"
  let ?out = "[str ''Elderberry Fig grape\<newline>'']"
  have h1: "first_islower latin1 ?l" by code_simp
  have h2: "2 \<le> length (split latin1 ?l)" by code_simp
  note inst = converted_line [OF h1 h2, of ?out]
  have "body latin1 ?l ?out =
          Inr (?out @
            [join (str '' '')
               (capitalize latin1 (split latin1 ?l ! 0) # capitalize latin1 (split latin1 ?l ! 1) #
                drop 2 (split latin1 ?l))
             @ str ''\<newline>''])"
    using inst by (rule conjunct1)
  moreover have "join (str '' '')
               (capitalize latin1 (split latin1 ?l ! 0) # capitalize latin1 (split latin1 ?l ! 1) #
                drop 2 (split latin1 ?l)) = str ''Ssa B''"
    by code_simp
  ultimately have b: "body latin1 ?l ?out = Inr [str ''Elderberry Fig grape\<newline>'', str ''Ssa B\<newline>'']"
    by simp
  have "931 \<notin> set (str ''a'')" by simp
  then have c: "capitalize latin1 ([223] @ str ''a'') =
                  totitle latin1 223 @ concat (map (tolower latin1) (str ''a''))"
    using inst by simp
  from h1 h2 b c show ?thesis by blast
qed

text \<open>
  Claim C2. A line of the file whose first character is not lowercase (an uppercase
  letter, a digit, punctuation, whitespace, or the line feed of a blank line) leaves
  \<open>output\<close> as it was, and the loop runs as if the line were not there. When no
  line of the file qualifies, the run succeeds and the file is left empty.
\<close>

theorem dropped_lines:
  assumes "lines = readlines (universal_newlines content)"
  shows "(\<forall>xs line ys. lines = xs @ line # ys \<and> \<not> first_islower db line \<longrightarrow>
            body db line out = Inr out \<and>
            loop db (xs @ line # ys) out = loop db (xs @ ys) out) \<and>
         ((\<forall>line\<in>set lines. \<not> first_islower db line) \<longrightarrow>
            main db (Some content) = (Inr (), Some []))"
proof (intro conjI allI impI)
  fix xs line ys
  assume h: "lines = xs @ line # ys \<and> \<not> first_islower db line"
  then have "line \<in> set (readlines (universal_newlines content))"
    using assms by simp
  then have ne: "line \<noteq> []"
    using readlines_nonempty by metis
  then show skip: "body db line out = Inr out"
    using h by (simp add: body_skip)
  have "\<And>acc. body db line acc = Inr acc"
    using ne h by (simp add: body_skip)
  then show "loop db (xs @ line # ys) out = loop db (xs @ ys) out"
    by (simp add: loop_append split: sum.splits)
next
  assume none: "\<forall>line\<in>set lines. \<not> first_islower db line"
  have "[] \<notin> set lines"
    using assms readlines_nonempty by simp
  moreover have "\<forall>l\<in>set lines. first_islower db l \<longrightarrow> 2 \<le> length (split db l)"
    using none by simp
  ultimately have "loop db lines [] = Inr ([] @ map (spec_convert db) (filter (first_islower db) lines))"
    by (rule loop_ok)
  moreover have "filter (first_islower db) lines = []"
    using none by simp
  ultimately show "main db (Some content) = (Inr (), Some [])"
    using assms by (simp add: main_Some)
qed

theorem dropped_lines_witness:
  "readlines (universal_newlines (str ''apple banana\<newline>Cherry date\<newline>'')) =
     [str ''apple banana\<newline>''] @ str ''Cherry date\<newline>'' # [] \<and>
   \<not> first_islower latin1 (str ''Cherry date\<newline>'') \<and>
   body latin1 (str ''Cherry date\<newline>'') [str ''Apple Banana\<newline>''] =
     Inr [str ''Apple Banana\<newline>''] \<and>
   loop latin1 ([str ''apple banana\<newline>''] @ str ''Cherry date\<newline>'' # []) [] =
     loop latin1 ([str ''apple banana\<newline>''] @ []) []"
proof -
  let ?text = "str ''apple banana\<newline>Cherry date\<newline>''"
  let ?xs = "[str ''apple banana\<newline>'']"
  let ?line = "str ''Cherry date\<newline>''"
  have r: "readlines (universal_newlines ?text) = ?xs @ ?line # []" by code_simp
  have n: "\<not> first_islower latin1 ?line" by code_simp
  have a: "\<forall>xs line ys. readlines (universal_newlines ?text) = xs @ line # ys \<and>
             \<not> first_islower latin1 line \<longrightarrow>
             body latin1 line [str ''Apple Banana\<newline>''] = Inr [str ''Apple Banana\<newline>''] \<and>
             loop latin1 (xs @ line # ys) [str ''Apple Banana\<newline>''] =
               loop latin1 (xs @ ys) [str ''Apple Banana\<newline>'']"
    using dropped_lines [OF refl, where content = "?text" and db = latin1 and out = "[str ''Apple Banana\<newline>'']"] by (rule conjunct1)
  have b: "\<forall>xs line ys. readlines (universal_newlines ?text) = xs @ line # ys \<and>
             \<not> first_islower latin1 line \<longrightarrow>
             body latin1 line [] = Inr [] \<and>
             loop latin1 (xs @ line # ys) [] = loop latin1 (xs @ ys) []"
    using dropped_lines [OF refl, where content = "?text" and db = latin1 and out = "[]"] by (rule conjunct1)
  from a r n have "body latin1 ?line [str ''Apple Banana\<newline>''] = Inr [str ''Apple Banana\<newline>'']"
    by blast
  moreover from b r n have "loop latin1 (?xs @ ?line # []) [] = loop latin1 (?xs @ []) []"
    by blast
  ultimately show ?thesis using r n by blast
qed

text \<open>
  Claim C3. A run on an existing file ends in an \<open>IndexError\<close> exactly when some line
  qualifies and has fewer than two tokens; when every qualifying line has at least two
  tokens the run succeeds. The file holding the single line \<open>solo\<close> fails this way.
\<close>

theorem index_error_iff:
  "((\<exists>msg. fst (main db (Some content)) = Inl (IndexError msg)) \<longleftrightarrow>
      (\<exists>line\<in>set (readlines (universal_newlines content)).
         first_islower db line \<and> length (split db line) < 2)) \<and>
   ((\<forall>line\<in>set (readlines (universal_newlines content)).
       first_islower db line \<longrightarrow> 2 \<le> length (split db line)) \<longrightarrow>
      fst (main db (Some content)) = Inr ()) \<and>
   fst (main db (Some (str ''solo\<newline>''))) = Inl (IndexError ''list index out of range'')"
proof -
  let ?lines = "readlines (universal_newlines content)"
  have ne: "[] \<notin> set ?lines" by (rule readlines_nonempty)
  have c: "if \<exists>l\<in>set ?lines. first_islower db l \<and> length (split db l) < 2
        then loop db ?lines [] = Inl (IndexError ''list index out of range'')
        else loop db ?lines [] = Inr ([] @ map (spec_convert db) (filter (first_islower db) ?lines))"
    using ne by (rule loop_cases)
  have 1: "(\<exists>msg. fst (main db (Some content)) = Inl (IndexError msg)) \<longleftrightarrow>
      (\<exists>line\<in>set ?lines. first_islower db line \<and> length (split db line) < 2)"
    using c by (auto simp: main_Some split: if_splits)
  have 2: "(\<forall>line\<in>set ?lines. first_islower db line \<longrightarrow> 2 \<le> length (split db line)) \<longrightarrow>
      fst (main db (Some content)) = Inr ()"
    using c by (auto simp: main_Some not_less split: if_splits)
  have 3: "fst (main db (Some (str ''solo\<newline>''))) = Inl (IndexError ''list index out of range'')"
    by code_simp
  from 1 2 3 show ?thesis by blast
qed

theorem index_error_iff_witness:
  "(\<exists>line\<in>set (readlines (universal_newlines (str ''apple banana\<newline>solo\<newline>''))).
      first_islower latin1 line \<and> length (split latin1 line) < 2) \<and>
   (\<exists>msg. fst (main latin1 (Some (str ''apple banana\<newline>solo\<newline>''))) = Inl (IndexError msg))"
proof -
  let ?text = "str ''apple banana\<newline>solo\<newline>''"
  have "str ''solo\<newline>'' \<in> set (readlines (universal_newlines ?text))" by code_simp
  moreover have "first_islower latin1 (str ''solo\<newline>'')" by code_simp
  moreover have "length (split latin1 (str ''solo\<newline>'')) < 2" by code_simp
  ultimately have h: "\<exists>line\<in>set (readlines (universal_newlines ?text)).
      first_islower latin1 line \<and> length (split latin1 line) < 2" by blast
  moreover have "\<exists>msg. fst (main latin1 (Some ?text)) = Inl (IndexError msg)"
    using index_error_iff [where db = latin1 and content = "?text"] h by blast
  ultimately show ?thesis by blast
qed

text \<open>
  Claim C4, as stated, says that a second run on the output of a successful first run
  always leaves the file empty. The feminine ordinal indicator (U+00AA, 170) is
  lowercase for \<open>str.islower\<close> and has no title-case form: the line it leads is
  written again with the indicator in front, and the second run keeps it.
\<close>

theorem second_run_keeps_line:
  "main latin1 (Some ([170] @ str '' b\<newline>'')) = (Inr (), Some ([170] @ str '' B\<newline>'')) \<and>
   main latin1 (Some ([170] @ str '' B\<newline>'')) = (Inr (), Some ([170] @ str '' B\<newline>'')) \<and>
   [170] @ str '' B\<newline>'' \<noteq> []"
  by code_simp

text \<open>
  Claim C4, amended. Let the first run succeed, and let every qualifying line begin
  with a character whose title-case mapping begins with a character that is not
  lowercase: every ASCII letter \<open>a\<close> to \<open>z\<close> does, so the condition is only asked of
  first characters outside ASCII. Then every line the first run writes begins with a
  character that is not lowercase, and a second run on that file succeeds and leaves
  it empty. The character database is one that calls no whitespace lowercase and
  whose case mappings produce no line feed or carriage return, as Unicode's is.
\<close>

theorem second_run_empty:
  assumes space: "\<forall>c. is_lowercase db c \<longrightarrow> \<not> is_whitespace db c"
    and title: "\<forall>c\<ge>128. 10 \<notin> set (to_title_full db c) \<and> 13 \<notin> set (to_title_full db c)"
    and lower: "\<forall>c\<ge>128. 10 \<notin> set (to_lower_full db c) \<and> 13 \<notin> set (to_lower_full db c)"
    and up: "\<forall>line\<in>set (readlines (universal_newlines content)).
               first_islower db line \<and> 128 \<le> hd line \<longrightarrow>
               (\<exists>t ts. to_title_full db (hd line) = t # ts \<and> \<not> islower db t)"
    and first_run: "main db (Some content) = (Inr (), written)"
  shows "main db written = (Inr (), Some [])"
proof -
  define lines where "lines = readlines (universal_newlines content)"
  define out where "out = map (spec_convert db) (filter (first_islower db) lines)"
  have ne: "[] \<notin> set lines"
    unfolding lines_def by (rule readlines_nonempty)
  have main1: "main db (Some content) =
      (case loop db lines [] of Inl e \<Rightarrow> (Inl e, Some content)
       | Inr out \<Rightarrow> (Inr (), Some (concat out)))"
    unfolding lines_def by (rule main_Some)
  have two: "\<forall>l\<in>set lines. first_islower db l \<longrightarrow> 2 \<le> length (split db l)"
  proof (rule ccontr)
    assume "\<not> ?thesis"
    then have "\<exists>l\<in>set lines. first_islower db l \<and> length (split db l) < 2"
      by (simp add: not_le)
    with ne have "loop db lines [] = Inl (IndexError ''list index out of range'')"
      by (rule loop_fail)
    then have "fst (main db (Some content)) = Inl (IndexError ''list index out of range'')"
      by (simp add: main1)
    then show False
      by (simp add: first_run)
  qed
  with ne have "loop db lines [] = Inr ([] @ map (spec_convert db) (filter (first_islower db) lines))"
    by (rule loop_ok)
  then have run: "loop db lines [] = Inr out"
    by (simp add: out_def)
  have "main db (Some content) = (Inr (), Some (concat out))"
    by (simp add: main1 run)
  then have written: "written = Some (concat out)"
    using first_run by simp
  have shape: "\<exists>b. l = b @ [10] \<and> 10 \<notin> set b \<and> 13 \<notin> set b \<and> \<not> first_islower db (b @ [10])"
    if "l \<in> set out" for l
  proof -
    have "l \<in> spec_convert db ` {x \<in> set lines. first_islower db x}"
      using that by (simp add: out_def)
    then obtain line where line: "line \<in> set lines" "first_islower db line"
      and l: "l = spec_convert db line"
      by blast
    have a: "2 \<le> length (split db line)"
      using two line by blast
    have b: "128 \<le> hd line \<longrightarrow>
        (\<exists>t ts. to_title_full db (hd line) = t # ts \<and> \<not> islower db t)"
      using up line unfolding lines_def by blast
    show ?thesis
      unfolding l using space title lower line(2) a b by (rule spec_convert_shape)
  qed
  have no_cr: "13 \<notin> set l" if "l \<in> set out" for l
    using shape [OF that] by auto
  have "13 \<notin> set (concat out)"
    using no_cr by auto
  then have same: "universal_newlines (concat out) = concat out"
    by (rule universal_newlines_id)
  have "\<forall>l\<in>set out. \<exists>b. l = b @ [10] \<and> 10 \<notin> set b"
    using shape by blast
  then have again: "readlines (concat out) = out"
    by (rule readlines_concat)
  have none: "\<forall>l\<in>set out. \<not> first_islower db l"
    using shape by blast
  have "[] \<notin> set out"
  proof
    assume "[] \<in> set out"
    from shape [OF this] show False by simp
  qed
  then have "loop db out [] = Inr []"
    using none by (rule loop_none)
  then have "main db (Some (concat out)) = (Inr (), Some [])"
    by (simp add: main_Some same again)
  then show ?thesis
    by (simp only: written)
qed

theorem second_run_empty_witness:
  "main latin1 (Some ([233] @ str ''t'' @ [233] @ str '' b\<newline>Cherry date\<newline>apple banana'')) =
     (Inr (), Some ([201] @ str ''t'' @ [233] @ str '' B\<newline>Apple Banana\<newline>'')) \<and>
   main latin1 (Some ([201] @ str ''t'' @ [233] @ str '' B\<newline>Apple Banana\<newline>'')) =
     (Inr (), Some [])"
proof -
  let ?content = "[233] @ str ''t'' @ [233] @ str '' b\<newline>Cherry date\<newline>apple banana''"
  let ?written = "Some ([201] @ str ''t'' @ [233] @ str '' B\<newline>Apple Banana\<newline>'')"
  have space: "\<forall>c. is_lowercase latin1 c \<longrightarrow> \<not> is_whitespace latin1 c"
    by (simp add: latin1_def)
  have title: "\<forall>c\<ge>128. 10 \<notin> set (to_title_full latin1 c) \<and> 13 \<notin> set (to_title_full latin1 c)"
    by (auto simp: latin1_def)
  have lower: "\<forall>c\<ge>128. 10 \<notin> set (to_lower_full latin1 c) \<and> 13 \<notin> set (to_lower_full latin1 c)"
    by (auto simp: latin1_def)
  have lines: "readlines (universal_newlines ?content) =
      [[233] @ str ''t'' @ [233] @ str '' b\<newline>'', str ''Cherry date\<newline>'', str ''apple banana'']"
    by code_simp
  have t: "to_title_full latin1 233 = [201]" by (simp add: latin1_def)
  have nl: "\<not> islower latin1 201" by (simp add: latin1_def islower_def)
  have up: "\<forall>line\<in>set (readlines (universal_newlines ?content)).
               first_islower latin1 line \<and> 128 \<le> hd line \<longrightarrow>
               (\<exists>t ts. to_title_full latin1 (hd line) = t # ts \<and> \<not> islower latin1 t)"
    unfolding lines using t nl by simp
  have first_run: "main latin1 (Some ?content) = (Inr (), ?written)"
    by code_simp
  have "main latin1 ?written = (Inr (), Some [])"
    using space title lower up first_run by (rule second_run_empty)
  then show ?thesis using first_run by simp
qed

text \<open>
  Claim C5, as stated, asks for fewer lines written than read. A file whose only line
  qualifies is rewritten with as many lines as it had.
\<close>

theorem all_lines_kept:
  "loop latin1 (readlines (universal_newlines (str ''apple banana\<newline>''))) [] =
     Inr [str ''Apple Banana\<newline>''] \<and>
   readlines (universal_newlines (str ''apple banana\<newline>'')) = [str ''apple banana\<newline>''] \<and>
   \<not> length [str ''Apple Banana\<newline>''] < length [str ''apple banana\<newline>'']"
  by code_simp

text \<open>
  Claim C5, amended. On a successful run the lines written are the converted qualifying
  lines of the file, one for each, in the order of the file and nothing else; there are
  at most as many as lines read, and fewer exactly when some line does not qualify.
\<close>

theorem output_is_filtered_map:
  assumes "lines = readlines (universal_newlines content)"
    and "loop db lines [] = Inr out"
  shows "out = map (spec_convert db) (filter (first_islower db) lines) \<and>
         snd (main db (Some content)) = Some (concat out) \<and>
         length out \<le> length lines \<and>
         (length out < length lines \<longleftrightarrow> (\<exists>line\<in>set lines. \<not> first_islower db line))"
proof -
  have "[] \<notin> set lines"
    using assms(1) readlines_nonempty by simp
  then have out: "out = map (spec_convert db) (filter (first_islower db) lines)"
    using loop_Inr assms(2) by fastforce
  have written: "snd (main db (Some content)) = Some (concat out)"
    using assms by (simp add: main_Some)
  have le: "length out \<le> length lines"
    unfolding out by simp
  have "length (filter (first_islower db) lines) < length lines \<longleftrightarrow>
          (\<exists>line\<in>set lines. \<not> first_islower db line)"
    by (metis filter_id_conv length_filter_le length_filter_less not_less_iff_gr_or_eq order_le_less)
  then have strict: "length out < length lines \<longleftrightarrow> (\<exists>line\<in>set lines. \<not> first_islower db line)"
    unfolding out by simp
  from out written le strict show ?thesis by blast
qed

theorem output_is_filtered_map_witness:
  "loop latin1 (readlines (universal_newlines (str ''apple banana\<newline>Cherry date\<newline>''))) [] =
     Inr [str ''Apple Banana\<newline>''] \<and>
   [str ''Apple Banana\<newline>''] =
     map (spec_convert latin1)
       (filter (first_islower latin1)
          (readlines (universal_newlines (str ''apple banana\<newline>Cherry date\<newline>'')))) \<and>
   snd (main latin1 (Some (str ''apple banana\<newline>Cherry date\<newline>''))) =
     Some (concat [str ''Apple Banana\<newline>''])"
proof -
  let ?text = "str ''apple banana\<newline>Cherry date\<newline>''"
  have h: "loop latin1 (readlines (universal_newlines ?text)) [] = Inr [str ''Apple Banana\<newline>'']"
    by code_simp
  show ?thesis
    using output_is_filtered_map [OF refl h] h by blast
qed



text \<open>
  Claim C8. When some qualifying line has fewer than two tokens the run ends in the
  \<open>IndexError\<close> of the loop and the file is what it was before the run; more
  generally a run that ends in any error leaves the file as it was.
\<close>

theorem error_leaves_file:
  "((\<exists>line\<in>set (readlines (universal_newlines content)).
       first_islower db line \<and> length (split db line) < 2) \<longrightarrow>
      main db (Some content) = (Inl (IndexError ''list index out of range''), Some content)) \<and>
   (\<forall>e. fst (main db f) = Inl e \<longrightarrow> snd (main db f) = f)"
proof (intro conjI impI allI)
  assume "\<exists>line\<in>set (readlines (universal_newlines content)).
       first_islower db line \<and> length (split db line) < 2"
  then have "loop db (readlines (universal_newlines content)) [] =
               Inl (IndexError ''list index out of range'')"
    using readlines_nonempty by (intro loop_fail) auto
  then show "main db (Some content) = (Inl (IndexError ''list index out of range''), Some content)"
    by (simp add: main_Some)
next
  fix e
  assume "fst (main db f) = Inl e"
  then show "snd (main db f) = f"
    by (cases f) (auto simp: main_def Let_def split: sum.splits)
qed

theorem error_leaves_file_witness:
  "(\<exists>line\<in>set (readlines (universal_newlines (str ''Keep me\<newline>solo\<newline>''))).
      first_islower latin1 line \<and> length (split latin1 line) < 2) \<and>
   main latin1 (Some (str ''Keep me\<newline>solo\<newline>'')) =
     (Inl (IndexError ''list index out of range''), Some (str ''Keep me\<newline>solo\<newline>''))"
proof -
  let ?text = "str ''Keep me\<newline>solo\<newline>''"
  have "str ''solo\<newline>'' \<in> set (readlines (universal_newlines ?text))" by code_simp
  moreover have "first_islower latin1 (str ''solo\<newline>'')" by code_simp
  moreover have "length (split latin1 (str ''solo\<newline>'')) < 2" by code_simp
  ultimately have h: "\<exists>line\<in>set (readlines (universal_newlines ?text)).
      first_islower latin1 line \<and> length (split latin1 line) < 2" by blast
  then show ?thesis
    using error_leaves_file [where db = latin1 and content = "?text" and f = None] by blast
qed

text \<open>
  Claim C9. No line returned by \<open>readlines\<close> is empty, so character 0 of every line
  exists; an empty text has no lines; and no run on an existing file ends in the
  \<open>IndexError\<close> of a string index.
\<close>

theorem first_character_total:
  "(\<forall>line\<in>set (readlines t). line \<noteq> [] \<and> str_getitem line 0 = Inr (hd line)) \<and>
   readlines [] = [] \<and> universal_newlines [] = [] \<and>
   fst (main db (Some content)) \<noteq> Inl (IndexError ''string index out of range'')"
proof -
  have 1: "\<forall>line\<in>set (readlines t). line \<noteq> [] \<and> str_getitem line 0 = Inr (hd line)"
  proof
    fix line
    assume "line \<in> set (readlines t)"
    then have "line \<noteq> []" using readlines_nonempty by metis
    then show "line \<noteq> [] \<and> str_getitem line 0 = Inr (hd line)"
      by (cases line) (simp_all add: str_getitem_def)
  qed
  have "if \<exists>l\<in>set (readlines (universal_newlines content)). first_islower db l \<and> length (split db l) < 2
        then loop db (readlines (universal_newlines content)) [] = Inl (IndexError ''list index out of range'')
        else loop db (readlines (universal_newlines content)) [] =
               Inr ([] @ map (spec_convert db) (filter (first_islower db) (readlines (universal_newlines content))))"
    using readlines_nonempty by (rule loop_cases)
  then have 2: "fst (main db (Some content)) \<noteq> Inl (IndexError ''string index out of range'')"
    by (auto simp: main_Some split: if_splits)
  from 1 2 show ?thesis by simp
qed

theorem first_character_total_witness:
  "str ''b'' \<in> set (readlines (str ''a\<newline>\<newline>b'')) \<and>
   str ''\<newline>'' \<in> set (readlines (str ''a\<newline>\<newline>b'')) \<and>
   str_getitem (str ''\<newline>'') 0 = Inr 10 \<and> str_getitem (str ''b'') 0 = Inr 98"
proof -
  have a: "str ''b'' \<in> set (readlines (str ''a\<newline>\<newline>b''))" by code_simp
  have b: "str ''\<newline>'' \<in> set (readlines (str ''a\<newline>\<newline>b''))" by code_simp
  have all: "\<forall>line\<in>set (readlines (str ''a\<newline>\<newline>b'')).
               line \<noteq> [] \<and> str_getitem line 0 = Inr (hd line)"
    using first_character_total [where t = "str ''a\<newline>\<newline>b''" and db = latin1 and content = "[]"] by (rule conjunct1)
  have "str_getitem (str ''\<newline>'') 0 = Inr (hd (str ''\<newline>''))" using all b by blast
  moreover have "str_getitem (str ''b'') 0 = Inr (hd (str ''b''))" using all a by blast
  ultimately show ?thesis using a b by simp
qed

text \<open>
  Claim C7. On the text \<open>apple banana\<close>, \<open>Cherry date\<close>, \<open>elderberry Fig grape\<close>,
  one per line, the run succeeds and leaves \<open>Apple Banana\<close>, \<open>Elderberry Fig grape\<close>
  in the file, whatever the character database says outside ASCII.
\<close>

theorem scenario_three_lines:
  "main db (Some (str ''apple banana\<newline>Cherry date\<newline>elderberry Fig grape\<newline>'')) =
     (Inr (), Some (str ''Apple Banana\<newline>Elderberry Fig grape\<newline>''))"
  by code_simp

text \<open>
  Claim C10. In a character database that calls no whitespace code point lowercase, as
  Unicode's does, a line whose first character is lowercase has a first token: token 0
  is read and assigned without error, and the loop body can only fail at token 1, when
  the line has exactly one token.
\<close>

theorem first_token_exists:
  assumes "\<forall>c. is_lowercase db c \<longrightarrow> \<not> is_whitespace db c"
    and "first_islower db line"
  shows "split db line \<noteq> [] \<and>
         getitem (split db line) 0 = Inr (hd (split db line)) \<and>
         setitem (split db line) 0 (capitalize db (hd (split db line))) =
           Inr (capitalize db (hd (split db line)) # tl (split db line)) \<and>
         (\<forall>e. body db line out = Inl e \<longrightarrow>
            e = IndexError ''list index out of range'' \<and> length (split db line) = 1)"
proof -
  obtain u rest where words: "split db line = (hd line # u) # rest"
    using first_islower_split [OF assms] by blast
  have 1: "split db line \<noteq> []"
    using words by simp
  have 2: "getitem (split db line) 0 = Inr (hd (split db line))"
    using words by (simp add: getitem_def)
  have 3: "setitem (split db line) 0 (capitalize db (hd (split db line))) =
             Inr (capitalize db (hd (split db line)) # tl (split db line))"
    using words by (simp add: setitem_def)
  have 4: "\<forall>e. body db line out = Inl e \<longrightarrow>
            e = IndexError ''list index out of range'' \<and> length (split db line) = 1"
  proof (intro allI impI)
    fix e
    assume fail: "body db line out = Inl e"
    show "e = IndexError ''list index out of range'' \<and> length (split db line) = 1"
    proof (cases "2 \<le> length (split db line)")
      case True
      then show ?thesis
        using body_convert [OF assms(2) True, of out] fail by simp
    next
      case False
      then have short: "length (split db line) < 2" by simp
      then have "length (split db line) = 1"
        using words by simp
      then show ?thesis
        using body_fail [OF assms(2) short, of out] fail by simp
    qed
  qed
  from 1 2 3 4 show ?thesis by blast
qed

theorem first_token_exists_witness:
  "first_islower latin1 (str ''solo\<newline>'') \<and>
   split latin1 (str ''solo\<newline>'') = [str ''solo''] \<and>
   getitem (split latin1 (str ''solo\<newline>'')) 0 = Inr (str ''solo'') \<and>
   body latin1 (str ''solo\<newline>'') [] = Inl (IndexError ''list index out of range'') \<and>
   length (split latin1 (str ''solo\<newline>'')) = 1"
proof -
  let ?l = "str ''solo\<newline>''"
  have sane: "\<forall>c. is_lowercase latin1 c \<longrightarrow> \<not> is_whitespace latin1 c"
    by (simp add: latin1_def)
  have low: "first_islower latin1 ?l" by code_simp
  have words: "split latin1 ?l = [str ''solo'']" by code_simp
  have fail: "body latin1 ?l [] = Inl (IndexError ''list index out of range'')" by code_simp
  have "getitem (split latin1 ?l) 0 = Inr (hd (split latin1 ?l)) \<and>
        length (split latin1 ?l) = 1"
    using first_token_exists [OF sane low, of "[]"] fail by blast
  then show ?thesis using low words fail by simp
qed

end
